theory Spec2Isabelle
  imports Complex_Main
begin

section \<open>Data model of \<open>src/news/news.js\<close>\<close>

text \<open>
  A source descriptor of \<open>sources.json\<close>: the code reads \<open>source.id\<close> (line 57, to build
  the request URL) and \<open>source.name\<close> (line 86).
\<close>

record source =
  source_id :: string
  name :: string

text \<open>
  One element of \<open>response.articles\<close> in the parsed NewsAPI payload, an object. A
  title, description, link or image may be absent (\<open>undefined\<close> or \<open>null\<close>), which is
  \<open>None\<close> here; what \<open>publishedAt\<close> holds is handed to \<open>new Date\<close> as it is, and
  whether it is a date is the date parser's matter.
\<close>

record entry =
  entry_title :: "string option"
  entry_description :: "string option"
  publishedAt :: string
  url :: "string option"
  urlToImage :: "string option"

text \<open>
  The object pushed on lines 82--89. It has the six properties \<open>title\<close>,
  \<open>description\<close>, \<open>timestamp\<close>, \<open>source\<close>, \<open>link\<close> and \<open>media\<close>, and no
  property \<open>id\<close>. Line 116 nevertheless reads \<open>articles[j].id\<close>; the field
  \<open>article_id\<close> is the value of that read, \<open>None\<close> when the property is absent.

  The timestamp is the JavaScript number \<open>new Date(publishedAt).getTime() / 1000\<close>.
  What happens to the articles does not depend on it, so its type \<open>'n\<close> and the
  conversion are parameters here; line 81 itself is \<open>secondsSinceEpoch\<close> below, with
  \<open>jsnumber\<close> for \<open>'n\<close>.
\<close>

record 'n article =
  article_id :: "string option"
  title :: "string option"
  description :: "string option"
  timestamp :: 'n
  source :: string
  link :: "string option"
  media :: "string option"

text \<open>The two values of \<open>config.js\<close> that the module reads.\<close>

record config =
  maxArticlesStorageCap :: int
  config_sources :: "string list"

text \<open>
  What the \<open>request\<close> library hands to its callback (line 60), by what lines 61--74 make
  of it:
  \<^item> \<open>RequestError\<close>: the transport failed, \<open>error\<close> is set;
  \<^item> \<open>NotJson\<close>: a response whose body is not JSON (an HTML error page, an empty body),
    on which \<open>JSON.parse\<close> throws on line 66;
  \<^item> \<open>JsonNull\<close>: a response whose body is the JSON \<open>null\<close>, on which the read of
    \<open>response.status\<close> throws on line 68;
  \<^item> \<open>OkWithoutArticles\<close>: a body with the status \<open>ok\<close> and no \<open>articles\<close>, on which
    \<open>response.articles.forEach\<close> throws on line 74;
  \<^item> \<open>Response\<close>: a body with a status (an absent one prints as \<open>undefined\<close> on
    line 69) and, read only when the status is \<open>ok\<close>, an array of entries.
\<close>

datatype http_result =
  RequestError string
| NotJson
| JsonNull
| OkWithoutArticles
| Response string "entry list"

text \<open>
  The exceptions of lines 66, 68 and 74. They are thrown inside the callback that
  \<open>request\<close> invokes, where nothing of this module catches them.
\<close>

datatype js_exception = SyntaxError | TypeError

text \<open>
  The first argument of the callback of \<open>searchForArticlesFromSource\<close>: the transport
  error of line 62, or the \<open>Error\<close> built on lines 69--70 with its message.
\<close>

datatype query_error =
  Transport string
| RemoteStatus string

datatype module_error = MissingApiKey

text \<open>
  The module's surroundings: the API key, \<open>sources.json\<close>, \<open>config.js\<close>, the function
  \<open>newsUtils.generateFuzzyPattern\<close>, which is not defined in this file of the
  repository, and the conversion of line 81. A phrase gives a pattern, and the pattern
  is used through \<open>pattern.test\<close> only, which is taken to be a predicate on text: the
  same text gives the same answer.

  An exception that nothing catches reaches the host process. Node's default is to end
  the process (\<open>exitsOnUncaught\<close>); a host that installs a handler for uncaught
  exceptions goes on with the next callback.
\<close>

record 'n env =
  apiKey :: "string option"
  sources :: "source list"
  cfg :: config
  generateFuzzyPattern :: "string \<Rightarrow> string \<Rightarrow> bool"
  epochSeconds :: "string \<Rightarrow> 'n"
  exitsOnUncaught :: bool

section \<open>\<open>reduceArticles\<close> (lines 104--126)\<close>

text \<open>
  The inner loop over \<open>j\<close> (lines 115--124), run on the articles still to visit, with
  the current \<open>count\<close> and \<open>finalArticles\<close>. \<open>Inl\<close> is the \<open>return finalArticles\<close> of
  line 122; \<open>Inr\<close> is the loop running to its end, with the updated variables.
\<close>

fun scanArticles ::
  "int \<Rightarrow> string \<Rightarrow> 'n article list \<Rightarrow> nat \<Rightarrow> 'n article list
    \<Rightarrow> 'n article list + nat \<times> 'n article list" where
  "scanArticles cap p [] count finalArticles = Inr (count, finalArticles)"
| "scanArticles cap p (a # rest) count finalArticles =
     (let (count', finalArticles') =
            (if article_id a = Some p then (count + 1, finalArticles @ [a])
             else (count, finalArticles))
      in if int count' = cap then Inl finalArticles'
         else scanArticles cap p rest count' finalArticles')"

text \<open>
  The outer loop over \<open>i\<close> (lines 113--125). When the priority list is used up the
  function body ends without a \<open>return\<close>: the call evaluates to \<open>undefined\<close>, which is
  \<open>None\<close>.
\<close>

fun walkSources ::
  "int \<Rightarrow> string list \<Rightarrow> 'n article list \<Rightarrow> nat \<Rightarrow> 'n article list
    \<Rightarrow> 'n article list option" where
  "walkSources cap [] articles count finalArticles = None"
| "walkSources cap (p # ps) articles count finalArticles =
     (case scanArticles cap p articles count finalArticles of
        Inl result \<Rightarrow> Some result
      | Inr (count', finalArticles') \<Rightarrow> walkSources cap ps articles count' finalArticles')"

definition reduceArticles :: "config \<Rightarrow> 'n article list \<Rightarrow> 'n article list option" where
  "reduceArticles c articles =
     (if int (length articles) \<le> maxArticlesStorageCap c then Some articles
      else walkSources (maxArticlesStorageCap c) (config_sources c) articles 0 [])"

section \<open>\<open>searchForArticlesFromSource\<close> (lines 56--95)\<close>

text \<open>
  \<open>x && pattern.test(x)\<close> (lines 76 and 78): an absent property and the empty string are
  falsy, so the pattern is only tried on a non-empty string.
\<close>

definition fieldMatches :: "(string \<Rightarrow> bool) \<Rightarrow> string option \<Rightarrow> bool" where
  "fieldMatches pattern field =
     (case field of None \<Rightarrow> False | Some s \<Rightarrow> s \<noteq> [] \<and> pattern s)"

definition makeArticle :: "(string \<Rightarrow> 'n) \<Rightarrow> source \<Rightarrow> entry \<Rightarrow> 'n article" where
  "makeArticle toSeconds src e =
     \<lparr> article_id = None,
       title = entry_title e,
       description = entry_description e,
       timestamp = toSeconds (publishedAt e),
       source = name src,
       link = url e,
       media = urlToImage e \<rparr>"

text \<open>The body of the \<open>forEach\<close> on lines 74--91, as one step on the local \<open>articles\<close>.\<close>

definition visitEntry ::
  "(string \<Rightarrow> bool) \<Rightarrow> (string \<Rightarrow> 'n) \<Rightarrow> source \<Rightarrow> 'n article list \<Rightarrow> entry
    \<Rightarrow> 'n article list" where
  "visitEntry pattern toSeconds src articles e =
     (let titleMatches = fieldMatches pattern (entry_title e);
          descriptionMatches = fieldMatches pattern (entry_description e)
      in if titleMatches \<or> descriptionMatches
         then articles @ [makeArticle toSeconds src e]
         else articles)"

text \<open>
  The callback of lines 60--94 on what \<open>request\<close> hands it. \<open>Inr\<close> holds the arguments
  with which it invokes \<open>callback\<close>: an error (lines 62 and 70) or the articles
  (line 93). \<open>Inl\<close> is an exception that leaves it; \<open>callback\<close> is then not invoked at
  all.
\<close>

definition searchForArticlesFromSource ::
  "(string \<Rightarrow> bool) \<Rightarrow> (string \<Rightarrow> 'n) \<Rightarrow> source \<Rightarrow> http_result
    \<Rightarrow> js_exception + (query_error + 'n article list)" where
  "searchForArticlesFromSource pattern toSeconds src res =
     (case res of
        RequestError cause \<Rightarrow> Inr (Inl (Transport cause))
      | NotJson \<Rightarrow> Inl SyntaxError
      | JsonNull \<Rightarrow> Inl TypeError
      | OkWithoutArticles \<Rightarrow> Inl TypeError
      | Response status entries \<Rightarrow>
          if status \<noteq> ''ok''
          then Inr (Inl (RemoteStatus (''NewsAPI returned status '' @ status @ '' '')))
          else Inr (Inr (foldl (visitEntry pattern toSeconds src) [] entries)))"

section \<open>The timestamp of line 81\<close>

text \<open>
  \<open>new Date(article.publishedAt).getTime() / 1000\<close> is a division of JavaScript
  numbers, that is of IEEE 754 binary64 values: the result is the exact quotient
  rounded to the nearest binary64 value, ties to the even significand.

  A finite binary64 value is a rational \<open>m * 2 ^ k\<close> with \<open>\<bar>m\<bar> < 2 ^ 53\<close>. The time
  values of a \<open>Date\<close> are the integers up to \<open>8.64e15\<close> in magnitude, so the quotients
  by 1000 are 0 or lie between \<open>1e-3\<close> and \<open>8.64e12\<close> in magnitude, far inside the
  exponent range of binary64: the bounds on \<open>k\<close> play no part and are left out.
\<close>

text \<open>The number of binary digits of a positive integer.\<close>

function bitLength :: "int \<Rightarrow> nat" where
  "bitLength n = (if n \<le> 0 then 0 else Suc (bitLength (n div 2)))"
  by pat_completeness auto
termination
  by (relation "measure nat") auto

declare bitLength.simps [simp del]

text \<open>The exponent \<open>e\<close> of a positive rational: \<open>2 ^ e \<le> q < 2 ^ (e + 1)\<close>.\<close>

definition binaryExponent :: "rat \<Rightarrow> int" where
  "binaryExponent q =
     (let (n, d) = quotient_of q;
          e = int (bitLength n) - int (bitLength d)
      in if 2 powi e \<le> q then e else e - 1)"

definition roundTiesToEven :: "rat \<Rightarrow> int" where
  "roundTiesToEven x =
     (let f = \<lfloor>x\<rfloor>; r = x - of_int f
      in if r < 1 / 2 then f
         else if 1 / 2 < r then f + 1
         else if even f then f else f + 1)"

text \<open>
  Rounding to binary64: the significand has 53 binary digits, so the unit in the last
  place of a value with exponent \<open>e\<close> is \<open>2 ^ (e - 52)\<close>.
\<close>

definition binary64 :: "rat \<Rightarrow> rat" where
  "binary64 q =
     (if q = 0 then 0
      else let ulp = 2 powi (binaryExponent \<bar>q\<bar> - 52)
           in sgn q * of_int (roundTiesToEven (\<bar>q\<bar> / ulp)) * ulp)"

definition isBinary64 :: "rat \<Rightarrow> bool" where
  "isBinary64 q \<longleftrightarrow> (\<exists>m k. \<bar>m\<bar> < 2 ^ 53 \<and> q = of_int m * 2 powi k)"

datatype jsnumber = NaN | Number rat

text \<open>
  \<open>new Date(v).getTime()\<close>: parsing the date is left to the parameter \<open>parseDate\<close>, which
  gives the milliseconds since the epoch that the text denotes, or nothing. A
  \<open>Date\<close> keeps a time value only within 8.64e15 milliseconds of the epoch; otherwise
  it is invalid and \<open>getTime()\<close> is \<open>NaN\<close>.
\<close>

definition getTime :: "(string \<Rightarrow> int option) \<Rightarrow> string \<Rightarrow> int option" where
  "getTime parseDate v =
     (case parseDate v of
        None \<Rightarrow> None
      | Some ms \<Rightarrow> if \<bar>ms\<bar> \<le> 8640000000000000 then Some ms else None)"

text \<open>Line 81. \<open>NaN / 1000\<close> is \<open>NaN\<close>.\<close>

definition secondsSinceEpoch :: "(string \<Rightarrow> int option) \<Rightarrow> string \<Rightarrow> jsnumber" where
  "secondsSinceEpoch parseDate v =
     (case getTime parseDate v of
        None \<Rightarrow> NaN
      | Some ms \<Rightarrow> Number (binary64 (of_int ms / 1000)))"

section \<open>\<open>getNews\<close> (lines 17--43)\<close>

text \<open>
  The variables that \<open>getNews\<close> and its callbacks share (\<open>articles\<close>, \<open>pending\<close>), and
  what the call does to the outside: the URLs requested, the lines written with
  \<open>console.error\<close>, the arguments of every invocation of \<open>callback\<close>, and the
  exceptions that reached the host uncaught, each in order.
\<close>

record 'n news_state =
  articles :: "'n article list"
  pending :: int
  requested :: "string list"
  console :: "(string \<times> query_error) list"
  delivered :: "'n article list option list"
  uncaught :: "js_exception list"

definition requestUrl :: "string \<Rightarrow> source \<Rightarrow> string" where
  "requestUrl key src =
     ''http://newsapi.org'' @ ''/v1/articles?source='' @ source_id src @ ''&apiKey='' @ key"

definition respond :: "config \<Rightarrow> 'n news_state \<Rightarrow> 'n news_state" where
  "respond c st = st\<lparr> delivered := delivered st @ [reduceArticles c (articles st)] \<rparr>"

text \<open>
  The callback of lines 28--37, run when the query of \<open>src\<close> settles. The template
  literal of line 31 interpolates the source object itself, which prints as
  \<open>[object Object]\<close>.
\<close>

definition onSettled ::
  "config \<Rightarrow> source \<Rightarrow> query_error + 'n article list \<Rightarrow> 'n news_state \<Rightarrow> 'n news_state" where
  "onSettled c src outcome st =
     (let st1 = st\<lparr> pending := pending st - 1 \<rparr>
      in case outcome of
           Inl error \<Rightarrow>
             st1\<lparr> console := console st1 @ [(''Request to [object Object] failed'', error)] \<rparr>
         | Inr response \<Rightarrow>
             (let st2 = st1\<lparr> articles := articles st1 @ response \<rparr>
              in if pending st2 = 0 then respond c st2 else st2))"

definition truthy :: "string option \<Rightarrow> bool" where
  "truthy v = (case v of None \<Rightarrow> False | Some s \<Rightarrow> s \<noteq> [])"

text \<open>
  The state right after the synchronous part of \<open>getNews\<close>: one request sent per source
  (line 27), nothing settled yet.
\<close>

definition dispatched :: "'n env \<Rightarrow> 'n news_state" where
  "dispatched e =
     \<lparr> articles = [],
       pending = int (length (sources e)),
       requested = map (requestUrl (case apiKey e of None \<Rightarrow> [] | Some k \<Rightarrow> k)) (sources e),
       console = [],
       delivered = [],
       uncaught = [] \<rparr>"

text \<open>
  Node runs the callbacks one at a time, in the order in which the requests complete.
  That order and the results are the environment's choice: \<open>completions\<close> lists the
  queries that have settled so far, each with what the transport returned.

  One completion: the callback of line 60 runs and either invokes the callback of
  lines 28--37 or throws. A throw changes none of the shared variables. After an
  uncaught exception a host that exits on it runs no further callback.
\<close>

definition settle ::
  "'n env \<Rightarrow> (string \<Rightarrow> bool) \<Rightarrow> 'n news_state \<Rightarrow> source \<times> http_result \<Rightarrow> 'n news_state" where
  "settle e pattern st completion =
     (if uncaught st \<noteq> [] \<and> exitsOnUncaught e then st
      else case searchForArticlesFromSource pattern (epochSeconds e)
                  (fst completion) (snd completion) of
             Inl exception \<Rightarrow> st\<lparr> uncaught := uncaught st @ [exception] \<rparr>
           | Inr outcome \<Rightarrow> onSettled (cfg e) (fst completion) outcome st)"

definition getNews ::
  "'n env \<Rightarrow> string \<Rightarrow> (source \<times> http_result) list \<Rightarrow> module_error + 'n news_state" where
  "getNews e phrase completions =
     (if \<not> truthy (apiKey e) then Inl MissingApiKey
      else let pattern = generateFuzzyPattern e phrase
           in Inr (foldl (settle e pattern) (dispatched e) completions))"

section \<open>Notions the properties are stated with\<close>

text \<open>
  The articles that the test of line 116 accepts for the priority entry \<open>p\<close>, in their
  given order, and the order in which the double loop of lines 113--125 meets the
  accepted articles: entry by entry of the priority list, each entry's articles in
  their given order.
\<close>

definition matching :: "string \<Rightarrow> 'n article list \<Rightarrow> 'n article list" where
  "matching p arts = filter (\<lambda>a. article_id a = Some p) arts"

definition selection :: "string list \<Rightarrow> 'n article list \<Rightarrow> 'n article list" where
  "selection ps arts = concat (map (\<lambda>p. matching p arts) ps)"

text \<open>
  What one settled query does in the callback of line 60, and what the callback of
  lines 28--37 makes of it: whether it is called back at all, the articles a successful
  query contributes, and the line a failed one writes to the console.
\<close>

definition queryOutcome ::
  "'n env \<Rightarrow> string \<Rightarrow> source \<times> http_result
    \<Rightarrow> js_exception + (query_error + 'n article list)" where
  "queryOutcome e phrase completion =
     searchForArticlesFromSource (generateFuzzyPattern e phrase) (epochSeconds e)
       (fst completion) (snd completion)"

definition calledBack :: "js_exception + (query_error + 'n article list) \<Rightarrow> bool" where
  "calledBack outcome = (case outcome of Inl exception \<Rightarrow> False | Inr arguments \<Rightarrow> True)"

definition succeeded :: "js_exception + (query_error + 'n article list) \<Rightarrow> 'n article list" where
  "succeeded outcome =
     (case outcome of
        Inl exception \<Rightarrow> []
      | Inr (Inl error) \<Rightarrow> []
      | Inr (Inr response) \<Rightarrow> response)"

definition failed ::
  "js_exception + (query_error + 'n article list) \<Rightarrow> (string \<times> query_error) list" where
  "failed outcome =
     (case outcome of
        Inl exception \<Rightarrow> []
      | Inr (Inl error) \<Rightarrow> [(''Request to [object Object] failed'', error)]
      | Inr (Inr response) \<Rightarrow> [])"

definition isSuccess :: "js_exception + (query_error + 'n article list) \<Rightarrow> bool" where
  "isSuccess outcome =
     (case outcome of
        Inl exception \<Rightarrow> False
      | Inr (Inl error) \<Rightarrow> False
      | Inr (Inr response) \<Rightarrow> True)"

text \<open>
  A completion reaches the callback of lines 28--37 when the host is still running and
  the callback of line 60 does not throw.
\<close>

definition handled :: "'n env \<Rightarrow> string \<Rightarrow> 'n news_state \<Rightarrow> source \<times> http_result \<Rightarrow> bool" where
  "handled e phrase st completion \<longleftrightarrow>
     (uncaught st = [] \<or> \<not> exitsOnUncaught e) \<and> calledBack (queryOutcome e phrase completion)"

section \<open>A concrete run\<close>

text \<open>
  Three sources \<open>A\<close>, \<open>B\<close>, \<open>C\<close>, a cap of 2 and the priority list \<open>[b, a, c]\<close>. The
  stand-in for the fuzzy pattern accepts a text that contains every character of the
  phrase; timestamps are left out (\<open>unit\<close>); the host exits on an uncaught exception.
  Source \<open>A\<close> answers with three entries of which two match the phrase \<open>election\<close>,
  source \<open>B\<close> with one matching entry, and the request to source \<open>C\<close> fails.
\<close>

definition sourceA :: source where
  "sourceA = \<lparr> source_id = ''a'', name = ''A'' \<rparr>"

definition sourceB :: source where
  "sourceB = \<lparr> source_id = ''b'', name = ''B'' \<rparr>"

definition sourceC :: source where
  "sourceC = \<lparr> source_id = ''c'', name = ''C'' \<rparr>"

definition headline :: "string \<Rightarrow> entry" where
  "headline t =
     \<lparr> entry_title = Some t,
       entry_description = None,
       publishedAt = ''2020-09-13T12:26:40.500Z'',
       url = Some ''http://example.org/story'',
       urlToImage = None \<rparr>"

definition scenarioConfig :: config where
  "scenarioConfig = \<lparr> maxArticlesStorageCap = 2, config_sources = [''b'', ''a'', ''c''] \<rparr>"

definition scenarioEnv :: "unit env" where
  "scenarioEnv =
     \<lparr> apiKey = Some ''key'',
       sources = [sourceA, sourceB, sourceC],
       cfg = scenarioConfig,
       generateFuzzyPattern = (\<lambda>phrase text. set phrase \<subseteq> set text),
       epochSeconds = (\<lambda>date. ()),
       exitsOnUncaught = True \<rparr>"

text \<open>The same with a cap of 10, under which the three articles of the run stay.\<close>

definition roomyEnv :: "unit env" where
  "roomyEnv =
     scenarioEnv\<lparr> cfg := \<lparr> maxArticlesStorageCap = 10, config_sources = [''b'', ''a'', ''c''] \<rparr> \<rparr>"

definition answerA :: http_result where
  "answerA =
     Response ''ok'' [headline ''election day'', headline ''weather'', headline ''the election'']"

definition answerB :: http_result where
  "answerB = Response ''ok'' [headline ''election results'']"

definition failureC :: http_result where
  "failureC = RequestError ''ETIMEDOUT''"

text \<open>An article as line 82 builds it from an entry of source \<open>A\<close>, \<open>B\<close>.\<close>

definition articleOfA :: "string \<Rightarrow> unit article" where
  "articleOfA t = makeArticle (\<lambda>date. ()) sourceA (headline t)"

definition articleOfB :: "string \<Rightarrow> unit article" where
  "articleOfB t = makeArticle (\<lambda>date. ()) sourceB (headline t)"

text \<open>
  An object that does carry an \<open>id\<close>, which no article of this module does:
  \<open>reduceArticles\<close> is defined on any array of objects.
\<close>

definition tagged :: "string \<Rightarrow> string \<Rightarrow> unit article" where
  "tagged i t =
     \<lparr> article_id = Some i, title = Some t, description = None, timestamp = (),
       source = i, link = None, media = None \<rparr>"

text \<open>
  The merged list of that run (the two matches of \<open>A\<close>, then the match of \<open>B\<close>), and
  the same three articles as objects that carry their source's id.
\<close>

definition scenarioMerged :: "unit article list" where
  "scenarioMerged =
     [articleOfA ''election day'', articleOfA ''the election'', articleOfB ''election results'']"

definition scenarioTagged :: "unit article list" where
  "scenarioTagged =
     [tagged ''a'' ''election day'', tagged ''a'' ''the election'', tagged ''b'' ''election results'']"

text \<open>
  Three entries for the filter: one whose title matches, one with a title and a
  description that do not, and one with neither a title nor a description.
\<close>

definition electionEntry :: entry where
  "electionEntry = headline ''Election results announced''"

definition weatherEntry :: entry where
  "weatherEntry = (headline ''Weather today'')\<lparr> entry_description := Some ''Sunny'' \<rparr>"

definition bareEntry :: entry where
  "bareEntry = (headline [])\<lparr> entry_title := None \<rparr>"

text \<open>
  Two dates for line 81, half a second and one millisecond past 1600000000 seconds,
  with the milliseconds since the epoch that they denote.
\<close>

definition parseIso :: "string \<Rightarrow> int option" where
  "parseIso v =
     (if v = ''2020-09-13T12:26:40.500Z'' then Some 1600000000500
      else if v = ''2020-09-13T12:26:40.001Z'' then Some 1600000000001
      else None)"

definition lateEntry :: entry where
  "lateEntry = (headline ''election day'')\<lparr> publishedAt := ''2020-09-13T12:26:40.001Z'' \<rparr>"

section \<open>The inner and the outer loop\<close>

lemma scanArticles_Inr:
  "scanArticles cap p as count fin = Inr (c, f) \<Longrightarrow>
     c = count + length (matching p as) \<and> f = fin @ matching p as"
proof (induction as arbitrary: count fin)
  case Nil
  then show ?case by (simp add: matching_def)
next
  case (Cons a as)
  show ?case
  proof (cases "article_id a = Some p")
    case True
    with Cons.prems have "scanArticles cap p as (count + 1) (fin @ [a]) = Inr (c, f)"
      by (simp split: if_splits)
    from Cons.IH[OF this] show ?thesis using True by (simp add: matching_def)
  next
    case False
    with Cons.prems have "scanArticles cap p as count fin = Inr (c, f)"
      by (simp split: if_splits)
    from Cons.IH[OF this] show ?thesis using False by (simp add: matching_def)
  qed
qed

text \<open>Below the cap, the scan stops exactly when the matches seen so far fill it.\<close>

lemma scanArticles_below:
  "int count < cap \<Longrightarrow>
   scanArticles cap p as count fin =
     (if cap \<le> int (count + length (matching p as))
      then Inl (fin @ take (nat cap - count) (matching p as))
      else Inr (count + length (matching p as), fin @ matching p as))"
proof (induction as arbitrary: count fin)
  case Nil
  then show ?case by (simp add: matching_def)
next
  case (Cons a as)
  show ?case
  proof (cases "article_id a = Some p")
    case True
    then have m: "matching p (a # as) = a # matching p as" by (simp add: matching_def)
    show ?thesis
    proof (cases "int (count + 1) = cap")
      case t: True
      then have "nat cap - count = Suc 0" by linarith
      with True t m show ?thesis by simp
    next
      case False
      with Cons.prems have below: "int (count + 1) < cap" by simp
      then have "nat cap - count = Suc (nat cap - (count + 1))" by linarith
      with True False m Cons.IH[OF below] show ?thesis by simp
    qed
  next
    case False
    then have m: "matching p (a # as) = matching p as" by (simp add: matching_def)
    from Cons.prems have "int count \<noteq> cap" by simp
    with False m Cons.IH[OF Cons.prems] show ?thesis by simp
  qed
qed

text \<open>Once the count is past the cap, the test of line 121 never succeeds again.\<close>

lemma scanArticles_above:
  "cap < int count \<Longrightarrow>
   scanArticles cap p as count fin = Inr (count + length (matching p as), fin @ matching p as)"
proof (induction as arbitrary: count fin)
  case Nil
  then show ?case by (simp add: matching_def)
next
  case (Cons a as)
  from Cons.prems have above: "cap < int (count + 1)" by simp
  from Cons.prems have ne: "int count \<noteq> cap" "int (count + 1) \<noteq> cap" by simp_all
  show ?case
  proof (cases "article_id a = Some p")
    case True
    with ne Cons.IH[OF above] show ?thesis by (simp add: matching_def)
  next
    case False
    with ne Cons.IH[OF Cons.prems] show ?thesis by (simp add: matching_def)
  qed
qed

lemma walkSources_below:
  "int count < cap \<Longrightarrow>
   walkSources cap ps as count fin =
     (if cap \<le> int (count + length (selection ps as))
      then Some (fin @ take (nat cap - count) (selection ps as))
      else None)"
proof (induction ps arbitrary: count fin)
  case Nil
  then show ?case by (simp add: selection_def)
next
  case (Cons p ps)
  have sel: "selection (p # ps) as = matching p as @ selection ps as"
    by (simp add: selection_def)
  show ?case
  proof (cases "cap \<le> int (count + length (matching p as))")
    case True
    then have "nat cap - count \<le> length (matching p as)" by linarith
    with True Cons.prems show ?thesis by (simp add: scanArticles_below sel)
  next
    case False
    then have below: "int (count + length (matching p as)) < cap" by simp
    have "nat cap - count - length (matching p as) = nat cap - (count + length (matching p as))"
      by simp
    with False Cons.prems Cons.IH[OF below] show ?thesis
      by (simp add: scanArticles_below sel add.assoc)
  qed
qed

lemma walkSources_above:
  "cap < int count \<Longrightarrow> walkSources cap ps as count fin = None"
proof (induction ps arbitrary: count fin)
  case Nil
  then show ?case by simp
next
  case (Cons p ps)
  from Cons.prems have "cap < int (count + length (matching p as))" by simp
  from Cons.IH[OF this] Cons.prems show ?case by (simp add: scanArticles_above)
qed

text \<open>
  With a cap of 0 the count equals the cap before anything is counted, so the very
  first test of line 121 decides: it succeeds unless the first article matches the
  first priority entry, and after that the count is past the cap.
\<close>

lemma walkSources_zero:
  "walkSources 0 ps as 0 [] =
     (case ps of
        [] \<Rightarrow> None
      | p # ps' \<Rightarrow>
          (case as of
             [] \<Rightarrow> None
           | a # rest \<Rightarrow> if article_id a = Some p then None else Some []))"
proof (cases ps)
  case Nil
  then show ?thesis by simp
next
  case (Cons p ps')
  note ps = Cons
  show ?thesis
  proof (cases as)
    case Nil
    have "walkSources 0 qs [] 0 ([] :: 'a article list) = None" for qs
      by (induction qs) simp_all
    with Nil ps show ?thesis by simp
  next
    case (Cons a rest)
    show ?thesis
    proof (cases "article_id a = Some p")
      case True
      have "(0::int) < int (Suc 0)" by simp
      then have "scanArticles 0 p rest (Suc 0) [a]
          = Inr (Suc 0 + length (matching p rest), [a] @ matching p rest)"
        by (rule scanArticles_above)
      moreover have "walkSources 0 ps' as (Suc 0 + length (matching p rest))
          ([a] @ matching p rest) = None"
        by (rule walkSources_above) simp
      ultimately show ?thesis using True ps Cons by simp
    next
      case False
      with ps Cons show ?thesis by simp
    qed
  qed
qed

text \<open>
  The whole of \<open>reduceArticles\<close> on an input longer than the cap, by the sign of the
  cap.
\<close>

lemma reduceArticles_walk:
  assumes "maxArticlesStorageCap c < int (length arts)"
  shows "reduceArticles c arts =
     (if 0 < maxArticlesStorageCap c
      then (if maxArticlesStorageCap c \<le> int (length (selection (config_sources c) arts))
            then Some (take (nat (maxArticlesStorageCap c)) (selection (config_sources c) arts))
            else None)
      else if maxArticlesStorageCap c = 0
      then walkSources 0 (config_sources c) arts 0 []
      else None)"
proof -
  from assms have r: "reduceArticles c arts =
      walkSources (maxArticlesStorageCap c) (config_sources c) arts 0 []"
    by (simp add: reduceArticles_def)
  consider (pos) "0 < maxArticlesStorageCap c" | (zero) "maxArticlesStorageCap c = 0"
    | (neg) "maxArticlesStorageCap c < 0" by linarith
  then show ?thesis
  proof cases
    case pos
    then have "int 0 < maxArticlesStorageCap c" by simp
    from walkSources_below[OF this, of "config_sources c" arts "[]"] pos r
    show ?thesis by simp
  next
    case zero
    with r show ?thesis by simp
  next
    case neg
    then have "maxArticlesStorageCap c < int 0" by simp
    from walkSources_above[OF this, of "config_sources c" arts "[]"] neg r
    show ?thesis by simp
  qed
qed

section \<open>What a query returns\<close>

text \<open>
  The \<open>forEach\<close> of lines 74--91 keeps, in order, the entries that pass the test of
  line 80, each turned into an article; no article it builds has an \<open>id\<close>.
\<close>

lemma foldl_visitEntry:
  "foldl (visitEntry pattern toSeconds src) acc entries =
     acc @ map (makeArticle toSeconds src)
             (filter (\<lambda>e. fieldMatches pattern (entry_title e)
                          \<or> fieldMatches pattern (entry_description e)) entries)"
  by (induction entries arbitrary: acc) (simp_all add: visitEntry_def)

lemma searchForArticlesFromSource_no_id:
  "searchForArticlesFromSource pattern toSeconds src res = Inr (Inr found) \<Longrightarrow> a \<in> set found
     \<Longrightarrow> article_id a = None"
  by (auto simp: searchForArticlesFromSource_def foldl_visitEntry makeArticle_def
      split: http_result.splits if_splits)

lemma selection_no_match:
  "(\<forall>a\<in>set arts. \<forall>p\<in>set ps. article_id a \<noteq> Some p) \<Longrightarrow> selection ps arts = []"
  by (induction ps) (auto simp: selection_def matching_def filter_empty_conv)

section \<open>Rounding to binary64\<close>

lemma bitLength_pos: "0 < n \<Longrightarrow> bitLength n = Suc (bitLength (n div 2))"
  by (subst bitLength.simps) simp

lemma bitLength_nonpos: "n \<le> 0 \<Longrightarrow> bitLength n = 0"
  by (subst bitLength.simps) simp

lemma bitLength_bounds:
  "0 < n \<Longrightarrow> 2 ^ bitLength n \<le> 2 * n \<and> n < 2 ^ bitLength n"
proof (induction n rule: bitLength.induct)
  case (1 n)
  note bl = bitLength_pos[OF "1.prems"]
  show ?case
  proof (cases "n div 2 \<le> 0")
    case True
    with "1.prems" have n1: "n = 1" by presburger
    have "bitLength 1 = Suc 0" by (simp add: bitLength_pos bitLength_nonpos)
    with n1 show ?thesis by simp
  next
    case False
    then have pos: "0 < n div 2" by simp
    from "1.IH"[OF _ pos] "1.prems"
    have ih: "2 ^ bitLength (n div 2) \<le> 2 * (n div 2)" "n div 2 < 2 ^ bitLength (n div 2)"
      by simp_all
    have "2 * (n div 2) \<le> n" by presburger
    with ih(1) have lo: "2 ^ bitLength n \<le> 2 * n" by (simp add: bl)
    from ih(2) have "n div 2 + 1 \<le> 2 ^ bitLength (n div 2)" by simp
    moreover have "n \<le> 2 * (n div 2) + 1" by presburger
    ultimately have "n < 2 ^ bitLength n" by (simp add: bl)
    with lo show ?thesis by simp
  qed
qed

text \<open>The exponent is the right one.\<close>

lemma binaryExponent_bounds:
  assumes "0 < q"
  shows "2 powi binaryExponent q \<le> q" and "q < 2 powi (binaryExponent q + 1)"
proof -
  obtain n d where nd: "quotient_of q = (n, d)" by (cases "quotient_of q")
  then have q: "q = of_int n / of_int d" and d: "0 < d"
    by (simp_all add: quotient_of_div quotient_of_denom_pos)
  from assms q d have n: "0 < n" by (simp add: zero_less_divide_iff)
  define N D :: rat where "N = of_int n" and "D = of_int d"
  define a b where "a = bitLength n" and "b = bitLength d"
  have pos: "0 < N" "0 < D" using n d by (simp_all add: N_def D_def)
  have "(of_int (2 ^ a) :: rat) \<le> of_int (2 * n)" "(of_int n :: rat) < of_int (2 ^ a)"
    using bitLength_bounds[OF n] unfolding a_def of_int_le_iff of_int_less_iff by simp_all
  then have N: "2 ^ a \<le> 2 * N" "N < 2 ^ a" by (simp_all add: N_def)
  have "(of_int (2 ^ b) :: rat) \<le> of_int (2 * d)" "(of_int d :: rat) < of_int (2 ^ b)"
    using bitLength_bounds[OF d] unfolding b_def of_int_le_iff of_int_less_iff by simp_all
  then have D: "2 ^ b \<le> 2 * D" "D < 2 ^ b" by (simp_all add: D_def)
  have e0: "(2::rat) powi (int a - int b) = 2 ^ a / 2 ^ b"
    by (simp add: power_int_diff)
  have qND: "q = N / D" by (simp add: q N_def D_def)
  have upper: "q < 2 * (2 ^ a / 2 ^ b)"
  proof -
    have "N * 2 ^ b < 2 ^ a * 2 ^ b" using N(2) by simp
    also have "\<dots> \<le> 2 ^ a * (2 * D)" using D(1) by simp
    finally have "N * 2 ^ b < 2 * 2 ^ a * D" by (simp add: mult_ac)
    then show ?thesis using pos by (simp add: qND field_simps)
  qed
  have lower: "2 ^ a / 2 ^ b / 2 \<le> q"
  proof -
    have "2 ^ a * D \<le> 2 * N * D" using N(1) pos by simp
    also have "\<dots> \<le> 2 * N * 2 ^ b" using D(2) pos by simp
    finally show ?thesis using pos by (simp add: qND field_simps)
  qed
  have be: "binaryExponent q =
      (if 2 powi (int a - int b) \<le> q then int a - int b else int a - int b - 1)"
    by (simp add: binaryExponent_def nd a_def b_def)
  have minus1: "(2::rat) powi (int a - int b - 1) = 2 ^ a / 2 ^ b / 2"
    by (simp add: power_int_diff e0)
  have plus1: "(2::rat) powi (int a - int b + 1) = 2 * (2 ^ a / 2 ^ b)"
    by (simp add: power_int_add e0)
  show "2 powi binaryExponent q \<le> q"
    using lower by (simp add: be minus1)
  show "q < 2 powi (binaryExponent q + 1)"
    using upper by (auto simp add: be plus1 e0)
qed

lemma roundTiesToEven_floor:
  "\<lfloor>x\<rfloor> \<le> roundTiesToEven x" "roundTiesToEven x \<le> \<lfloor>x\<rfloor> + 1"
  by (simp_all add: roundTiesToEven_def Let_def)

lemma roundTiesToEven_near: "\<bar>of_int (roundTiesToEven x) - x\<bar> \<le> 1 / 2"
proof -
  define r where "r = x - of_int \<lfloor>x\<rfloor>"
  have r: "0 \<le> r" "r < 1" unfolding r_def by linarith+
  have x: "x = of_int \<lfloor>x\<rfloor> + r" by (simp add: r_def)
  have "roundTiesToEven x = \<lfloor>x\<rfloor> \<and> r \<le> 1 / 2
      \<or> roundTiesToEven x = \<lfloor>x\<rfloor> + 1 \<and> 1 / 2 \<le> r"
    unfolding roundTiesToEven_def Let_def r_def[symmetric] by auto
  then show ?thesis
  proof
    assume "roundTiesToEven x = \<lfloor>x\<rfloor> \<and> r \<le> 1 / 2"
    then show ?thesis using r by (subst (2) x) simp
  next
    assume "roundTiesToEven x = \<lfloor>x\<rfloor> + 1 \<and> 1 / 2 \<le> r"
    then show ?thesis using r by (subst (2) x) simp
  qed
qed

lemma roundTiesToEven_of_int: "roundTiesToEven (of_int m) = m"
  by (simp add: roundTiesToEven_def)

text \<open>
  The rounded value is off by at most half a unit in the last place, which is at most
  the \<open>2 ^ 53\<close>-th part of the magnitude.
\<close>

lemma binary64_error:
  "\<bar>binary64 q - q\<bar> * 2 ^ 53 \<le> \<bar>q\<bar>"
proof (cases "q = 0")
  case True
  then show ?thesis by (simp add: binary64_def)
next
  case False
  define e where "e = binaryExponent \<bar>q\<bar>"
  define ulp :: rat where "ulp = 2 powi (e - 52)"
  define x where "x = \<bar>q\<bar> / ulp"
  have ulp: "0 < ulp" by (simp add: ulp_def)
  from False have "0 < \<bar>q\<bar>" by simp
  from binaryExponent_bounds(1)[OF this] have lo: "2 powi e \<le> \<bar>q\<bar>" by (simp add: e_def)
  have b: "binary64 q = sgn q * of_int (roundTiesToEven x) * ulp"
    using False by (simp add: binary64_def Let_def e_def ulp_def x_def)
  have q: "q = sgn q * x * ulp" using ulp by (simp add: x_def mult_sgn_abs)
  have "binary64 q - q = sgn q * (of_int (roundTiesToEven x) - x) * ulp"
    by (subst (2) q) (simp add: b algebra_simps)
  then have "\<bar>binary64 q - q\<bar> = \<bar>of_int (roundTiesToEven x) - x\<bar> * ulp"
    using False ulp by (simp add: abs_mult abs_sgn_eq)
  also have "\<dots> \<le> 1 / 2 * ulp"
    using roundTiesToEven_near[of x] ulp by (intro mult_right_mono) simp_all
  finally have "\<bar>binary64 q - q\<bar> * 2 ^ 53 \<le> 1 / 2 * ulp * 2 ^ 53" by simp
  also have "1 / 2 * ulp * 2 ^ 53 = 2 powi e"
    by (simp add: ulp_def power_int_diff)
  finally show ?thesis using lo by simp
qed

text \<open>A binary64 value is not changed by rounding.\<close>

lemma binary64_exact:
  assumes "isBinary64 q"
  shows "binary64 q = q"
proof (cases "q = 0")
  case True
  then show ?thesis by (simp add: binary64_def)
next
  case False
  from assms obtain m k where m: "\<bar>m\<bar> < 2 ^ 53" and qm: "q = of_int m * 2 powi k"
    unfolding isBinary64_def by blast
  define e where "e = binaryExponent \<bar>q\<bar>"
  define ulp :: rat where "ulp = 2 powi (e - 52)"
  have ulp: "0 < ulp" by (simp add: ulp_def)
  from False have "0 < \<bar>q\<bar>" by simp
  from binaryExponent_bounds(1)[OF this] have lo: "2 powi e \<le> \<bar>q\<bar>" by (simp add: e_def)
  have absq: "\<bar>q\<bar> = of_int \<bar>m\<bar> * 2 powi k" by (simp add: qm abs_mult)
  have "(of_int \<bar>m\<bar> :: rat) < of_int (2 ^ 53)" using m unfolding of_int_less_iff .
  then have "of_int \<bar>m\<bar> * (2::rat) powi k < 2 ^ 53 * 2 powi k" by simp
  also have "\<dots> = 2 powi (53 + k)" by (simp add: power_int_add)
  finally have "(2::rat) powi e < 2 powi (53 + k)" using lo absq by simp
  then have "e < 53 + k"
    using power_int_increasing[of "53 + k" e "2::rat"] by (cases "e < 53 + k") simp_all
  define j where "j = nat (k - (e - 52))"
  have j: "k = (e - 52) + int j" using \<open>e < 53 + k\<close> by (simp add: j_def)
  have "(2::rat) powi k = 2 powi (e - 52) * 2 ^ j"
    by (subst j) (simp add: power_int_add)
  then have whole: "\<bar>q\<bar> / ulp = of_int (\<bar>m\<bar> * 2 ^ j)"
    using ulp by (simp add: absq ulp_def)
  then have "roundTiesToEven (\<bar>q\<bar> / ulp) = \<bar>m\<bar> * 2 ^ j"
    by (simp only: roundTiesToEven_of_int)
  then have b: "binary64 q = sgn q * (of_int (\<bar>m\<bar> * 2 ^ j) * ulp)"
    using False by (simp add: binary64_def Let_def e_def ulp_def mult.assoc)
  have "of_int (\<bar>m\<bar> * 2 ^ j) * ulp = \<bar>q\<bar>"
    using whole ulp by (simp add: field_simps)
  with b show ?thesis by (simp add: mult_sgn_abs)
qed

text \<open>The rounded value is a binary64 value: its significand fits 53 binary digits.\<close>

lemma binary64_is_binary64: "isBinary64 (binary64 q)"
proof (cases "q = 0")
  case True
  have "\<bar>0::int\<bar> < 2 ^ 53 \<and> (0::rat) = of_int 0 * 2 powi 0" by simp
  then have "isBinary64 0" unfolding isBinary64_def by blast
  then show ?thesis by (simp add: True binary64_def)
next
  case False
  define e where "e = binaryExponent \<bar>q\<bar>"
  define ulp :: rat where "ulp = 2 powi (e - 52)"
  define x where "x = \<bar>q\<bar> / ulp"
  define M where "M = roundTiesToEven x"
  define s :: int where "s = (if 0 < q then 1 else - 1)"
  have s: "sgn q = of_int s" "\<bar>s\<bar> = 1" using False by (simp_all add: s_def sgn_if)
  have ulp: "0 < ulp" by (simp add: ulp_def)
  from False have "0 < \<bar>q\<bar>" by simp
  from binaryExponent_bounds[OF this]
  have lo: "2 powi e \<le> \<bar>q\<bar>" and hi: "\<bar>q\<bar> < 2 powi (e + 1)" by (simp_all add: e_def)
  have e52: "(2::rat) powi e = 2 ^ 52 * ulp" "(2::rat) powi (e + 1) = 2 ^ 53 * ulp"
    by (simp_all add: ulp_def power_int_diff power_int_add)
  have xlo: "of_int (2 ^ 52) \<le> x" using lo ulp by (simp add: x_def e52 pos_le_divide_eq)
  have xhi: "x < of_int (2 ^ 53)" using hi ulp by (simp add: x_def e52 pos_divide_less_eq)
  from xlo have "2 ^ 52 \<le> \<lfloor>x\<rfloor>" by (simp only: le_floor_iff)
  with roundTiesToEven_floor(1)[of x] have Mlo: "2 ^ 52 \<le> M" unfolding M_def by linarith
  from xhi have "\<lfloor>x\<rfloor> < 2 ^ 53" by (simp only: floor_less_iff)
  with roundTiesToEven_floor(2)[of x] have Mhi: "M \<le> 2 ^ 53" unfolding M_def by linarith
  have b: "binary64 q = of_int s * of_int M * ulp"
    using False by (simp add: binary64_def Let_def e_def ulp_def x_def M_def s)
  show ?thesis
  proof (cases "M = 2 ^ 53")
    case True
    have "binary64 q = of_int s * 2 powi (e + 1)"
      by (simp add: b True e52)
    moreover have "\<bar>s\<bar> < 2 ^ 53" using s(2) by simp
    ultimately show ?thesis unfolding isBinary64_def by blast
  next
    case False
    with Mhi Mlo have "\<bar>s * M\<bar> < 2 ^ 53" using s(2) by (simp add: abs_mult)
    moreover have "binary64 q = of_int (s * M) * 2 powi (e - 52)"
      by (simp add: b ulp_def)
    ultimately show ?thesis unfolding isBinary64_def by blast
  qed
qed

text \<open>No integer is nearer than the rounded one.\<close>

lemma roundTiesToEven_nearest:
  "\<bar>of_int (roundTiesToEven x) - x\<bar> \<le> \<bar>of_int z - x\<bar>"
proof (rule ccontr)
  assume "\<not> ?thesis"
  then have less: "\<bar>of_int z - x\<bar> < \<bar>of_int (roundTiesToEven x) - x\<bar>" by simp
  with roundTiesToEven_near[of x] have "\<bar>of_int z - x\<bar> < 1 / 2" by simp
  with roundTiesToEven_near[of x]
  have "\<bar>(of_int z :: rat) - of_int (roundTiesToEven x)\<bar> < 1" by linarith
  then have "\<bar>(of_int (z - roundTiesToEven x) :: rat)\<bar> < of_int 1" by simp
  then have "\<bar>z - roundTiesToEven x\<bar> < 1"
    unfolding of_int_abs[symmetric] of_int_less_iff .
  then have "z = roundTiesToEven x" by simp
  with less show False by simp
qed

text \<open>No binary64 value is nearer to the quotient than the rounded one.\<close>

lemma binary64_nearest:
  assumes "isBinary64 r"
  shows "\<bar>binary64 q - q\<bar> \<le> \<bar>r - q\<bar>"
proof (cases "q = 0")
  case True
  then show ?thesis by (simp add: binary64_def)
next
  case False
  from assms obtain m k where m: "\<bar>m\<bar> < 2 ^ 53" and rm: "r = of_int m * 2 powi k"
    unfolding isBinary64_def by blast
  define e where "e = binaryExponent \<bar>q\<bar>"
  define ulp :: rat where "ulp = 2 powi (e - 52)"
  define x where "x = \<bar>q\<bar> / ulp"
  define M where "M = roundTiesToEven x"
  define y where "y = sgn q * r / ulp"
  have ulp: "0 < ulp" by (simp add: ulp_def)
  from False have "0 < \<bar>q\<bar>" by simp
  from binaryExponent_bounds(1)[OF this] have lo: "2 powi e \<le> \<bar>q\<bar>" by (simp add: e_def)
  have e52: "(2::rat) powi e = 2 ^ 52 * ulp"
    by (simp add: ulp_def power_int_diff)
  have xlo: "2 ^ 52 \<le> x" using lo ulp by (simp add: x_def e52 pos_le_divide_eq)
  have sq: "sgn q * sgn q = 1" using False by (simp add: sgn_if)
  have b: "binary64 q = sgn q * of_int M * ulp"
    using False by (simp add: binary64_def Let_def e_def ulp_def x_def M_def)
  have q: "q = sgn q * x * ulp" using ulp by (simp add: x_def mult_sgn_abs)
  have r: "r = sgn q * y * ulp"
  proof -
    have "sgn q * y * ulp = (sgn q * sgn q) * r" using ulp by (simp add: y_def)
    then show ?thesis using \<open>q \<noteq> 0\<close> by (simp add: sq)
  qed
  have "binary64 q - q = sgn q * (of_int M - x) * ulp"
    by (subst (2) q) (simp add: b algebra_simps)
  then have left: "\<bar>binary64 q - q\<bar> = \<bar>of_int M - x\<bar> * ulp"
    using False ulp by (simp add: abs_mult abs_sgn_eq)
  have "r - q = sgn q * (y - x) * ulp"
    by (subst r, subst (2) q) (simp add: algebra_simps)
  then have right: "\<bar>r - q\<bar> = \<bar>y - x\<bar> * ulp"
    using False ulp by (simp add: abs_mult abs_sgn_eq)
  have "\<bar>of_int M - x\<bar> \<le> \<bar>y - x\<bar>"
  proof (cases "e - 52 \<le> k")
    case True
    define j where "j = nat (k - (e - 52))"
    have j: "k = (e - 52) + int j" using True by (simp add: j_def)
    have "(2::rat) powi k = ulp * 2 ^ j"
      unfolding ulp_def by (subst j) (simp add: power_int_add)
    then have "y = sgn q * of_int (m * 2 ^ j)"
      using ulp by (simp add: y_def rm)
    moreover define s :: int where "s = (if 0 < q then 1 else - 1)"
    then have "sgn q = of_int s" using False by (simp add: sgn_if)
    ultimately have "y = of_int (s * (m * 2 ^ j))" by simp
    then show ?thesis unfolding M_def using roundTiesToEven_nearest[of x "s * (m * 2 ^ j)"] by simp
  next
    case False
    then have "k + 1 \<le> e - 52" by simp
    then have "(2::rat) powi (k + 1) \<le> ulp"
      unfolding ulp_def by (intro power_int_increasing) simp_all
    then have k: "2 * (2::rat) powi k \<le> ulp" by (simp add: power_int_add)
    have "\<bar>y\<bar> = of_int \<bar>m\<bar> * 2 powi k / ulp"
      using \<open>q \<noteq> 0\<close> ulp by (simp add: y_def rm abs_mult abs_sgn_eq)
    also have "of_int \<bar>m\<bar> * (2::rat) powi k \<le> 2 ^ 53 * 2 powi k"
    proof -
      have "(of_int \<bar>m\<bar> :: rat) \<le> of_int (2 ^ 53)" using m unfolding of_int_le_iff by simp
      then show ?thesis by (intro mult_right_mono) simp_all
    qed
    then have "of_int \<bar>m\<bar> * 2 powi k / ulp \<le> 2 ^ 53 * 2 powi k / ulp"
      using ulp by (simp add: divide_right_mono)
    also have "2 ^ 53 * (2::rat) powi k / ulp \<le> 2 ^ 52"
    proof -
      have "2 ^ 53 * (2::rat) powi k = 2 ^ 52 * (2 * 2 powi k)" by simp
      also have "\<dots> \<le> 2 ^ 52 * ulp" using k by (intro mult_left_mono) simp_all
      finally show ?thesis using ulp by (simp add: pos_divide_le_eq)
    qed
    finally have ylo: "y \<le> 2 ^ 52" by linarith
    from roundTiesToEven_nearest[of x "2 ^ 52"]
    have "\<bar>of_int M - x\<bar> \<le> \<bar>2 ^ 52 - x\<bar>" by (simp add: M_def)
    with ylo xlo show ?thesis by linarith
  qed
  then have "\<bar>of_int M - x\<bar> * ulp \<le> \<bar>y - x\<bar> * ulp"
    using ulp by (intro mult_right_mono) simp_all
  with left right show ?thesis by simp
qed

section \<open>What the callbacks do to the shared variables\<close>

text \<open>
  One settled query: nothing changes unless it reaches the callback of lines 28--37;
  then \<open>pending\<close> goes down by one, a success appends its articles, a failure writes
  one line, and \<open>callback\<close> is invoked exactly when a success brings \<open>pending\<close> to 0.
\<close>

lemma settle_cases:
  "settle e (generateFuzzyPattern e phrase) st c =
     (if uncaught st \<noteq> [] \<and> exitsOnUncaught e then st
      else case queryOutcome e phrase c of
             Inl exception \<Rightarrow> st\<lparr> uncaught := uncaught st @ [exception] \<rparr>
           | Inr outcome \<Rightarrow> onSettled (cfg e) (fst c) outcome st)"
  by (simp add: settle_def queryOutcome_def)

lemma settle_pending:
  "pending (settle e (generateFuzzyPattern e phrase) st c)
     = pending st - (if handled e phrase st c then 1 else 0)"
  by (auto simp: settle_cases handled_def calledBack_def onSettled_def respond_def Let_def
      split: sum.splits)

lemma settle_articles:
  "articles (settle e (generateFuzzyPattern e phrase) st c)
     = articles st @ (if handled e phrase st c then succeeded (queryOutcome e phrase c) else [])"
  by (auto simp: settle_cases handled_def calledBack_def succeeded_def onSettled_def
      respond_def Let_def split: sum.splits)

lemma settle_console:
  "console (settle e (generateFuzzyPattern e phrase) st c)
     = console st @ (if handled e phrase st c then failed (queryOutcome e phrase c) else [])"
  by (auto simp: settle_cases handled_def calledBack_def failed_def onSettled_def
      respond_def Let_def split: sum.splits)

lemma settle_requested:
  "requested (settle e (generateFuzzyPattern e phrase) st c) = requested st"
  by (auto simp: settle_cases onSettled_def respond_def Let_def split: sum.splits)

lemma settle_delivered:
  "delivered (settle e (generateFuzzyPattern e phrase) st c) =
     delivered st @
       (if handled e phrase st c \<and> isSuccess (queryOutcome e phrase c) \<and> pending st = 1
        then [reduceArticles (cfg e) (articles st @ succeeded (queryOutcome e phrase c))]
        else [])"
  by (auto simp: settle_cases handled_def calledBack_def isSuccess_def succeeded_def
      onSettled_def respond_def Let_def split: sum.splits)

lemma settle_uncaught:
  "calledBack (queryOutcome e phrase c) \<Longrightarrow>
     uncaught (settle e (generateFuzzyPattern e phrase) st c) = uncaught st"
  by (auto simp: settle_cases calledBack_def onSettled_def respond_def Let_def
      split: sum.splits)

text \<open>Any number of settled queries.\<close>

lemma run_requested:
  "requested (foldl (settle e (generateFuzzyPattern e phrase)) st cs) = requested st"
  by (induction cs arbitrary: st) (simp_all add: settle_requested)

lemma run_pending_bounds:
  "pending st - int (length cs) \<le> pending (foldl (settle e (generateFuzzyPattern e phrase)) st cs)
   \<and> pending (foldl (settle e (generateFuzzyPattern e phrase)) st cs) \<le> pending st"
proof (induction cs arbitrary: st)
  case Nil
  then show ?case by simp
next
  case (Cons c cs)
  from Cons.IH[of "settle e (generateFuzzyPattern e phrase) st c"]
  show ?case by (simp add: settle_pending split: if_splits)
qed

lemma run_no_id:
  assumes "\<forall>a\<in>set (articles st). article_id a = None"
  shows "\<forall>a\<in>set (articles (foldl (settle e (generateFuzzyPattern e phrase)) st cs)).
           article_id a = None"
  using assms
proof (induction cs arbitrary: st)
  case Nil
  then show ?case by simp
next
  case (Cons c cs)
  have "article_id a = None" if "a \<in> set (succeeded (queryOutcome e phrase c))" for a
  proof -
    from that obtain found where "queryOutcome e phrase c = Inr (Inr found)" "a \<in> set found"
      by (cases "queryOutcome e phrase c" rule: sum.exhaust[case_product sum.exhaust])
        (auto simp: succeeded_def split: sum.splits)
    then show ?thesis
      unfolding queryOutcome_def by (rule searchForArticlesFromSource_no_id)
  qed
  with Cons.prems
  have "\<forall>a\<in>set (articles (settle e (generateFuzzyPattern e phrase) st c)). article_id a = None"
    by (auto simp: settle_articles)
  from Cons.IH[OF this] show ?case by simp
qed

lemma run_delivered_pending:
  "int (length cs) < pending st \<Longrightarrow>
   delivered (foldl (settle e (generateFuzzyPattern e phrase)) st cs) = delivered st"
proof (induction cs arbitrary: st)
  case Nil
  then show ?case by simp
next
  case (Cons c cs)
  from Cons.prems have "int (length cs) < pending (settle e (generateFuzzyPattern e phrase) st c)"
    by (simp add: settle_pending)
  from Cons.IH[OF this] Cons.prems show ?case by (simp add: settle_delivered)
qed

lemma run_delivered_done:
  "pending st \<le> 0 \<Longrightarrow>
   delivered (foldl (settle e (generateFuzzyPattern e phrase)) st cs) = delivered st"
proof (induction cs arbitrary: st)
  case Nil
  then show ?case by simp
next
  case (Cons c cs)
  from Cons.prems have "pending (settle e (generateFuzzyPattern e phrase) st c) \<le> 0"
    by (simp add: settle_pending)
  from Cons.IH[OF this] Cons.prems show ?case by (simp add: settle_delivered)
qed

lemma run_delivered_length:
  "length (delivered (foldl (settle e (generateFuzzyPattern e phrase)) st cs))
     \<le> length (delivered st) + 1"
proof (induction cs arbitrary: st)
  case Nil
  then show ?case by simp
next
  case (Cons c cs)
  let ?next = "settle e (generateFuzzyPattern e phrase) st c"
  show ?case
  proof (cases "handled e phrase st c \<and> isSuccess (queryOutcome e phrase c) \<and> pending st = 1")
    case True
    then have "pending ?next \<le> 0" by (simp add: settle_pending)
    from run_delivered_done[OF this] True show ?thesis by (simp add: settle_delivered)
  next
    case False
    then have "delivered ?next = delivered st" by (simp add: settle_delivered)
    with Cons.IH[of ?next] show ?thesis by simp
  qed
qed

text \<open>Runs in which no query throws.\<close>

lemma run_quiet:
  assumes "uncaught st = []" and "\<forall>c\<in>set cs. calledBack (queryOutcome e phrase c)"
  shows "uncaught (foldl (settle e (generateFuzzyPattern e phrase)) st cs) = []
    \<and> pending (foldl (settle e (generateFuzzyPattern e phrase)) st cs)
        = pending st - int (length cs)
    \<and> articles (foldl (settle e (generateFuzzyPattern e phrase)) st cs)
        = articles st @ concat (map (\<lambda>c. succeeded (queryOutcome e phrase c)) cs)
    \<and> console (foldl (settle e (generateFuzzyPattern e phrase)) st cs)
        = console st @ concat (map (\<lambda>c. failed (queryOutcome e phrase c)) cs)"
  using assms
proof (induction cs arbitrary: st)
  case Nil
  then show ?case by simp
next
  case (Cons c cs)
  let ?next = "settle e (generateFuzzyPattern e phrase) st c"
  from Cons.prems have called: "calledBack (queryOutcome e phrase c)" by simp
  with Cons.prems(1) have h: "handled e phrase st c" by (simp add: handled_def)
  from called Cons.prems(1) have u: "uncaught ?next = []" by (simp add: settle_uncaught)
  from Cons.prems(2) have rest: "\<forall>c\<in>set cs. calledBack (queryOutcome e phrase c)" by simp
  from Cons.IH[OF u rest] h show ?case
    by (simp add: settle_pending settle_articles settle_console)
qed

lemma run_quiet_delivered_last:
  assumes "uncaught st = []" and "\<forall>c\<in>set (cs @ [c]). calledBack (queryOutcome e phrase c)"
    and "int (length cs) + 1 = pending st"
  shows "delivered (foldl (settle e (generateFuzzyPattern e phrase)) st (cs @ [c])) =
     delivered st @
       (if isSuccess (queryOutcome e phrase c)
        then [reduceArticles (cfg e)
               (articles st @ concat (map (\<lambda>c. succeeded (queryOutcome e phrase c)) (cs @ [c])))]
        else [])"
proof -
  let ?mid = "foldl (settle e (generateFuzzyPattern e phrase)) st cs"
  from assms(2) have quiet: "\<forall>c\<in>set cs. calledBack (queryOutcome e phrase c)"
    and called: "calledBack (queryOutcome e phrase c)" by simp_all
  from assms(3) have "int (length cs) < pending st" by simp
  then have d: "delivered ?mid = delivered st" by (rule run_delivered_pending)
  from run_quiet[OF assms(1) quiet] assms(3)
  have mid: "uncaught ?mid = []" "pending ?mid = 1"
    "articles ?mid = articles st @ concat (map (\<lambda>c. succeeded (queryOutcome e phrase c)) cs)"
    by simp_all
  from mid(1) called have "handled e phrase ?mid c" by (simp add: handled_def)
  then show ?thesis by (simp add: settle_delivered d mid)
qed

lemma getNews_runs:
  "truthy (apiKey e) \<Longrightarrow>
     getNews e phrase completions
       = Inr (foldl (settle e (generateFuzzyPattern e phrase)) (dispatched e) completions)"
  by (simp add: getNews_def)

lemma getNews_Inr:
  "getNews e phrase completions = Inr st \<Longrightarrow>
     st = foldl (settle e (generateFuzzyPattern e phrase)) (dispatched e) completions"
  by (simp add: getNews_def split: if_splits)

lemma getNews_articles_no_id:
  assumes "getNews e phrase completions = Inr st" and "a \<in> set (articles st)"
  shows "article_id a = None"
proof -
  have "\<forall>a\<in>set (articles (dispatched e)). article_id a = None"
    by (simp add: dispatched_def)
  from run_no_id[OF this, of e phrase completions] assms(2)
  show ?thesis unfolding getNews_Inr[OF assms(1)] by blast
qed

text \<open>No callback while a query is still pending.\<close>

lemma getNews_waits_for_all:
  assumes "getNews e phrase completions = Inr st"
    and "length completions < length (sources e)"
  shows "delivered st = []"
proof -
  from assms(2) have "int (length completions) < pending (dispatched e)"
    by (simp add: dispatched_def)
  from run_delivered_pending[OF this] show ?thesis
    unfolding getNews_Inr[OF assms(1)] by (simp add: dispatched_def)
qed

lemma getNews_responds_at_most_once:
  assumes "getNews e phrase completions = Inr st"
  shows "length (delivered st) \<le> 1"
  using run_delivered_length[of e phrase "dispatched e" completions]
  unfolding getNews_Inr[OF assms] by (simp add: dispatched_def)

text \<open>
  When every query has settled and none has thrown, \<open>callback\<close> has been invoked if and
  only if the last query to settle succeeded.
\<close>

lemma getNews_responds_iff_last_succeeds:
  assumes "getNews e phrase (earlier @ [final]) = Inr st"
    and "length (earlier @ [final]) = length (sources e)"
    and "\<forall>c\<in>set (earlier @ [final]). calledBack (queryOutcome e phrase c)"
  shows "delivered st =
     (if isSuccess (queryOutcome e phrase final)
      then [reduceArticles (cfg e) (articles st)] else [])"
proof -
  have u: "uncaught (dispatched e) = []" by (simp add: dispatched_def)
  from assms(2) have p: "int (length earlier) + 1 = pending (dispatched e)"
    by (simp add: dispatched_def)
  from run_quiet[OF u assms(3)]
  have "articles st = concat (map (\<lambda>c. succeeded (queryOutcome e phrase c)) (earlier @ [final]))"
    unfolding getNews_Inr[OF assms(1)] by (simp add: dispatched_def)
  with run_quiet_delivered_last[OF u assms(3) p] show ?thesis
    unfolding getNews_Inr[OF assms(1)] by (simp add: dispatched_def)
qed

text \<open>
  When no query throws, the merged list is the articles of the successful queries, in
  the order of completion, and the console has one line per failed query.
\<close>

lemma getNews_merges_successes:
  assumes "getNews e phrase completions = Inr st"
    and "\<forall>c\<in>set completions. calledBack (queryOutcome e phrase c)"
  shows "articles st = concat (map (\<lambda>c. succeeded (queryOutcome e phrase c)) completions)"
    and "console st = concat (map (\<lambda>c. failed (queryOutcome e phrase c)) completions)"
proof -
  have u: "uncaught (dispatched e) = []" by (simp add: dispatched_def)
  from run_quiet[OF u assms(2)]
  show "articles st = concat (map (\<lambda>c. succeeded (queryOutcome e phrase c)) completions)"
    and "console st = concat (map (\<lambda>c. failed (queryOutcome e phrase c)) completions)"
    unfolding getNews_Inr[OF assms(1)] by (simp_all add: dispatched_def)
qed

section \<open>Properties of \<open>reduceArticles\<close>\<close>

text \<open>
  Claim C6. An input whose length is at most the cap is returned as it is: the same
  articles in the same order (lines 105--107).
\<close>

theorem reduceArticles_pass_through:
  "int (length arts) \<le> maxArticlesStorageCap c \<Longrightarrow> reduceArticles c arts = Some arts"
  by (simp add: reduceArticles_def)

theorem reduceArticles_pass_through_witness:
  "int (length [articleOfB ''election results'', articleOfA ''election day''])
      \<le> maxArticlesStorageCap scenarioConfig
   \<and> reduceArticles scenarioConfig [articleOfB ''election results'', articleOfA ''election day'']
       = Some [articleOfB ''election results'', articleOfA ''election day'']"
proof -
  have h: "int (length [articleOfB ''election results'', articleOfA ''election day''])
      \<le> maxArticlesStorageCap scenarioConfig"
    by (simp add: scenarioConfig_def)
  from reduceArticles_pass_through[OF h] h show ?thesis by simp
qed

text \<open>
  Claim C5, as the code has it. Whenever \<open>reduceArticles\<close> returns a list, the list
  has at most \<open>cap\<close> elements. An input no longer than the cap is returned whole,
  whatever its articles. For an input longer than the cap a returned list has exactly
  \<open>cap\<close> elements: the first \<open>cap\<close> articles that the priority walk meets, so that at
  least \<open>cap\<close> pairs of a priority entry and an article with that \<open>id\<close> exist.
\<close>

theorem reduceArticles_at_most_cap:
  assumes "reduceArticles c arts = Some result"
  shows "int (length result) \<le> maxArticlesStorageCap c
    \<and> (int (length arts) \<le> maxArticlesStorageCap c \<longrightarrow> result = arts)
    \<and> (maxArticlesStorageCap c < int (length arts) \<longrightarrow>
         int (length result) = maxArticlesStorageCap c
         \<and> result = take (nat (maxArticlesStorageCap c)) (selection (config_sources c) arts)
         \<and> maxArticlesStorageCap c \<le> int (length (selection (config_sources c) arts)))"
proof (cases "int (length arts) \<le> maxArticlesStorageCap c")
  case True
  with assms have "result = arts" by (simp add: reduceArticles_def)
  with True show ?thesis by simp
next
  case False
  then have long: "maxArticlesStorageCap c < int (length arts)" by simp
  note walk = reduceArticles_walk[OF long]
  consider (pos) "0 < maxArticlesStorageCap c" | (zero) "maxArticlesStorageCap c = 0"
    | (neg) "maxArticlesStorageCap c < 0" by linarith
  then show ?thesis
  proof cases
    case pos
    with walk assms
    have enough: "maxArticlesStorageCap c \<le> int (length (selection (config_sources c) arts))"
      and res: "result = take (nat (maxArticlesStorageCap c)) (selection (config_sources c) arts)"
      by (auto split: if_splits)
    from enough pos have "int (length result) = maxArticlesStorageCap c"
      unfolding res by simp
    with enough res long show ?thesis by simp
  next
    case zero
    with walk assms have "walkSources 0 (config_sources c) arts 0 [] = Some result" by simp
    then have "result = []"
      by (simp add: walkSources_zero split: list.splits if_splits)
    with zero long show ?thesis by simp
  next
    case neg
    with walk assms show ?thesis by simp
  qed
qed

theorem reduceArticles_at_most_cap_witness:
  "reduceArticles scenarioConfig scenarioTagged
     = Some [tagged ''b'' ''election results'', tagged ''a'' ''election day'']
   \<and> maxArticlesStorageCap scenarioConfig < int (length scenarioTagged)
   \<and> int (length [tagged ''b'' ''election results'', tagged ''a'' ''election day''])
       = maxArticlesStorageCap scenarioConfig
   \<and> [tagged ''b'' ''election results'', tagged ''a'' ''election day'']
       = take (nat (maxArticlesStorageCap scenarioConfig))
           (selection (config_sources scenarioConfig) scenarioTagged)
   \<and> maxArticlesStorageCap scenarioConfig
       \<le> int (length (selection (config_sources scenarioConfig) scenarioTagged))"
proof -
  have h: "reduceArticles scenarioConfig scenarioTagged
     = Some [tagged ''b'' ''election results'', tagged ''a'' ''election day'']"
    by code_simp
  have long: "maxArticlesStorageCap scenarioConfig < int (length scenarioTagged)"
    by (simp add: scenarioConfig_def scenarioTagged_def)
  from reduceArticles_at_most_cap[OF h] h long show ?thesis by simp
qed

text \<open>
  Claim C5 as stated fails on the pass-through of line 105: with a cap of 2 and the
  priority list \<open>[b, c]\<close>, two articles of source \<open>A\<close> come back as they are. The
  result has exactly \<open>cap\<close> elements although not a single article matches the
  priority list.
\<close>

theorem reduceArticles_full_without_priority_match:
  "reduceArticles \<lparr> maxArticlesStorageCap = 2, config_sources = [''b'', ''c''] \<rparr>
       [articleOfA ''election day'', articleOfA ''the election'']
     = Some [articleOfA ''election day'', articleOfA ''the election'']
   \<and> selection [''b'', ''c''] [articleOfA ''election day'', articleOfA ''the election''] = []
   \<and> map source [articleOfA ''election day'', articleOfA ''the election''] = [''A'', ''A'']"
  by code_simp

text \<open>
  Claim C7 at a cap of 0, an empty priority list and one article: the input is longer
  than the cap, the outer loop has nothing to run, and the result is \<open>undefined\<close>
  where the claim has the empty list.
\<close>

theorem reduceArticles_zero_cap_empty_priority:
  "reduceArticles \<lparr> maxArticlesStorageCap = 0, config_sources = [] \<rparr>
       [articleOfA ''election day'']
     = None"
  by code_simp

text \<open>
  Claim C10, as the code has it. On an input longer than the cap, \<open>reduceArticles\<close>
  returns \<open>undefined\<close> exactly when the test of line 121 never finds the count equal to
  the cap: the cap is negative; or it is positive and fewer than \<open>cap\<close> pairs of a
  priority entry and an article match; or it is 0 and the priority list is empty or the
  very first article matches the first priority entry. In particular the result is
  \<open>undefined\<close> when no article has an \<open>id\<close> equal to a priority entry, and so for every
  merged list that \<open>getNews\<close> builds, unless the cap is 0 and the priority list is not
  empty.
\<close>

theorem reduceArticles_falls_off_the_end:
  assumes "maxArticlesStorageCap c < int (length arts)"
  shows "(reduceArticles c arts = None \<longleftrightarrow>
            (0 < maxArticlesStorageCap c \<longrightarrow>
               int (length (selection (config_sources c) arts)) < maxArticlesStorageCap c)
          \<and> (maxArticlesStorageCap c = 0 \<longrightarrow>
               config_sources c = []
               \<or> (\<exists>a rest p ps. arts = a # rest \<and> config_sources c = p # ps
                     \<and> article_id a = Some p)))
    \<and> ((\<forall>a\<in>set arts. \<forall>p\<in>set (config_sources c). article_id a \<noteq> Some p)
          \<and> (maxArticlesStorageCap c = 0 \<longrightarrow> config_sources c = [])
        \<longrightarrow> reduceArticles c arts = None)
    \<and> ((\<exists>e phrase completions st. getNews e phrase completions = Inr st \<and> arts = articles st)
          \<and> (maxArticlesStorageCap c = 0 \<longrightarrow> config_sources c = [])
        \<longrightarrow> reduceArticles c arts = None)"
proof -
  note walk = reduceArticles_walk[OF assms]
  from assms have nonempty: "maxArticlesStorageCap c = 0 \<Longrightarrow> arts \<noteq> []" by auto
  have exact: "reduceArticles c arts = None \<longleftrightarrow>
            (0 < maxArticlesStorageCap c \<longrightarrow>
               int (length (selection (config_sources c) arts)) < maxArticlesStorageCap c)
          \<and> (maxArticlesStorageCap c = 0 \<longrightarrow>
               config_sources c = []
               \<or> (\<exists>a rest p ps. arts = a # rest \<and> config_sources c = p # ps
                     \<and> article_id a = Some p))"
  proof -
    consider (pos) "0 < maxArticlesStorageCap c" | (zero) "maxArticlesStorageCap c = 0"
      | (neg) "maxArticlesStorageCap c < 0" by linarith
    then show ?thesis
    proof cases
      case pos
      with walk show ?thesis by auto
    next
      case zero
      with walk nonempty show ?thesis
        by (auto simp: walkSources_zero split: list.splits)
    next
      case neg
      with walk show ?thesis by simp
    qed
  qed
  have no_match: "reduceArticles c arts = None"
    if none: "\<forall>a\<in>set arts. \<forall>p\<in>set (config_sources c). article_id a \<noteq> Some p"
      and z: "maxArticlesStorageCap c = 0 \<longrightarrow> config_sources c = []"
  proof -
    from none have "selection (config_sources c) arts = []" by (rule selection_no_match)
    with z show ?thesis unfolding exact by simp
  qed
  have built: "reduceArticles c arts = None"
    if run: "\<exists>e phrase completions st. getNews e phrase completions = Inr st \<and> arts = articles st"
      and z: "maxArticlesStorageCap c = 0 \<longrightarrow> config_sources c = []"
  proof -
    from run have "\<forall>a\<in>set arts. article_id a = None"
      by (auto dest: getNews_articles_no_id)
    then have "\<forall>a\<in>set arts. \<forall>p\<in>set (config_sources c). article_id a \<noteq> Some p" by simp
    from no_match[OF this z] show ?thesis .
  qed
  show ?thesis
  proof (intro conjI impI)
    show "reduceArticles c arts = None \<longleftrightarrow>
            (0 < maxArticlesStorageCap c \<longrightarrow>
               int (length (selection (config_sources c) arts)) < maxArticlesStorageCap c)
          \<and> (maxArticlesStorageCap c = 0 \<longrightarrow>
               config_sources c = []
               \<or> (\<exists>a rest p ps. arts = a # rest \<and> config_sources c = p # ps
                     \<and> article_id a = Some p))"
      by (rule exact)
  next
    assume "(\<forall>a\<in>set arts. \<forall>p\<in>set (config_sources c). article_id a \<noteq> Some p)
          \<and> (maxArticlesStorageCap c = 0 \<longrightarrow> config_sources c = [])"
    then show "reduceArticles c arts = None" using no_match by simp
  next
    assume "(\<exists>e phrase completions st. getNews e phrase completions = Inr st \<and> arts = articles st)
          \<and> (maxArticlesStorageCap c = 0 \<longrightarrow> config_sources c = [])"
    then show "reduceArticles c arts = None" using built by simp
  qed
qed

theorem reduceArticles_falls_off_the_end_witness:
  "getNews scenarioEnv ''election'' [(sourceA, answerA), (sourceB, answerB)]
     = Inr \<lparr> articles = scenarioMerged, pending = 1,
             requested = [''http://newsapi.org/v1/articles?source=a&apiKey=key'',
                          ''http://newsapi.org/v1/articles?source=b&apiKey=key'',
                          ''http://newsapi.org/v1/articles?source=c&apiKey=key''],
             console = [], delivered = [], uncaught = [] \<rparr>
   \<and> maxArticlesStorageCap scenarioConfig < int (length scenarioMerged)
   \<and> maxArticlesStorageCap scenarioConfig \<noteq> 0
   \<and> selection (config_sources scenarioConfig) scenarioMerged = []
   \<and> reduceArticles scenarioConfig scenarioMerged = None"
proof -
  have run: "getNews scenarioEnv ''election'' [(sourceA, answerA), (sourceB, answerB)]
     = Inr \<lparr> articles = scenarioMerged, pending = 1,
             requested = [''http://newsapi.org/v1/articles?source=a&apiKey=key'',
                          ''http://newsapi.org/v1/articles?source=b&apiKey=key'',
                          ''http://newsapi.org/v1/articles?source=c&apiKey=key''],
             console = [], delivered = [], uncaught = [] \<rparr>"
    by code_simp
  have long: "maxArticlesStorageCap scenarioConfig < int (length scenarioMerged)"
    by (simp add: scenarioConfig_def scenarioMerged_def)
  have nonzero: "maxArticlesStorageCap scenarioConfig \<noteq> 0"
    by (simp add: scenarioConfig_def)
  have sel: "selection (config_sources scenarioConfig) scenarioMerged = []"
    by code_simp
  have "\<exists>e phrase completions st.
      getNews e phrase completions = Inr st \<and> scenarioMerged = articles (st :: unit news_state)"
    using run by (intro exI[of _ scenarioEnv] exI[of _ "''election''"]
        exI[of _ "[(sourceA, answerA), (sourceB, answerB)]"]) simp
  with reduceArticles_falls_off_the_end[OF long] nonzero
  have "reduceArticles scenarioConfig scenarioMerged = None" by blast
  with run long nonzero sel show ?thesis by simp
qed

text \<open>
  Claim C10 as stated fails at a cap of 0: the article that the query of source \<open>A\<close>
  builds has no \<open>id\<close>, the input is longer than the cap, and the first test of
  line 121 finds \<open>0 === 0\<close>, so the result is the empty list, not \<open>undefined\<close>.
\<close>

theorem reduceArticles_zero_cap_no_match:
  "searchForArticlesFromSource (\<lambda>text. set ''election'' \<subseteq> set text) (\<lambda>date. ()) sourceA
       (Response ''ok'' [headline ''election day''])
     = Inr (Inr [articleOfA ''election day''])
   \<and> article_id (articleOfA ''election day'') = None
   \<and> reduceArticles \<lparr> maxArticlesStorageCap = 0, config_sources = [''a''] \<rparr>
       [articleOfA ''election day'']
     = Some []"
  by code_simp

section \<open>Properties of \<open>searchForArticlesFromSource\<close>\<close>

text \<open>
  Claim C8. On a response with status \<open>ok\<close> the query succeeds with, in order, the
  articles of exactly those entries whose title or description passes
  \<open>x && pattern.test(x)\<close>; every article of the result passes it on its title or its
  description. An absent field does not pass and raises nothing (nor does an empty
  one: the pattern is never tried on it). For a pattern that rejects the empty text,
  an entry is kept exactly when its title or its description is present and accepted
  by the pattern.
\<close>

theorem searchForArticlesFromSource_keeps_matches:
  "\<exists>found. searchForArticlesFromSource pattern toSeconds src (Response ''ok'' entries)
             = Inr (Inr found)
     \<and> found = map (makeArticle toSeconds src)
                 (filter (\<lambda>e. fieldMatches pattern (entry_title e)
                              \<or> fieldMatches pattern (entry_description e)) entries)
     \<and> (\<forall>e\<in>set entries.
           makeArticle toSeconds src e \<in> set found
             \<longleftrightarrow> fieldMatches pattern (entry_title e)
                 \<or> fieldMatches pattern (entry_description e))
     \<and> (\<forall>a\<in>set found. fieldMatches pattern (title a) \<or> fieldMatches pattern (description a))
     \<and> (\<forall>field. fieldMatches pattern field
           \<longleftrightarrow> (\<exists>text. field = Some text \<and> text \<noteq> [] \<and> pattern text))
     \<and> (\<not> pattern [] \<longrightarrow>
          (\<forall>e\<in>set entries.
             makeArticle toSeconds src e \<in> set found
               \<longleftrightarrow> (\<exists>text. entry_title e = Some text \<and> pattern text)
                   \<or> (\<exists>text. entry_description e = Some text \<and> pattern text)))"
proof -
  let ?keep = "\<lambda>e. fieldMatches pattern (entry_title e) \<or> fieldMatches pattern (entry_description e)"
  let ?found = "map (makeArticle toSeconds src) (filter ?keep entries)"
  have run: "searchForArticlesFromSource pattern toSeconds src (Response ''ok'' entries)
      = Inr (Inr ?found)"
    by (simp add: searchForArticlesFromSource_def foldl_visitEntry)
  have fields: "title (makeArticle toSeconds src e) = entry_title e"
      "description (makeArticle toSeconds src e) = entry_description e" for e
    by (simp_all add: makeArticle_def)
  have inv: "\<forall>a\<in>set ?found. fieldMatches pattern (title a) \<or> fieldMatches pattern (description a)"
    by (auto simp: fields)
  have iff: "makeArticle toSeconds src e \<in> set ?found \<longleftrightarrow> ?keep e" if "e \<in> set entries" for e
  proof
    assume "makeArticle toSeconds src e \<in> set ?found"
    with inv have "fieldMatches pattern (title (makeArticle toSeconds src e))
        \<or> fieldMatches pattern (description (makeArticle toSeconds src e))" by blast
    then show "?keep e" by (simp add: fields)
  next
    assume "?keep e"
    with that show "makeArticle toSeconds src e \<in> set ?found" by simp
  qed
  have absent: "\<forall>field. fieldMatches pattern field
      \<longleftrightarrow> (\<exists>text. field = Some text \<and> text \<noteq> [] \<and> pattern text)"
    by (simp add: fieldMatches_def split: option.splits)
  have plain: "fieldMatches pattern field \<longleftrightarrow> (\<exists>text. field = Some text \<and> pattern text)"
    if "\<not> pattern []" for field
    using that by (cases field) (auto simp: fieldMatches_def)
  have contract: "\<forall>e\<in>set entries.
      makeArticle toSeconds src e \<in> set ?found
        \<longleftrightarrow> (\<exists>text. entry_title e = Some text \<and> pattern text)
            \<or> (\<exists>text. entry_description e = Some text \<and> pattern text)"
    if "\<not> pattern []"
    using iff plain[OF that] by simp
  from run inv iff absent contract show ?thesis by blast
qed

theorem searchForArticlesFromSource_keeps_matches_witness:
  "\<not> set ''election'' \<subseteq> set []
   \<and> searchForArticlesFromSource (\<lambda>text. set ''election'' \<subseteq> set text) (\<lambda>date. ()) sourceA
       (Response ''ok'' [electionEntry, weatherEntry, bareEntry])
     = Inr (Inr [makeArticle (\<lambda>date. ()) sourceA electionEntry])
   \<and> entry_title electionEntry = Some ''Election results announced''
   \<and> entry_title weatherEntry = Some ''Weather today''
   \<and> entry_description weatherEntry = Some ''Sunny''
   \<and> entry_title bareEntry = None
   \<and> entry_description bareEntry = None"
proof -
  have shape: "\<not> set ''election'' \<subseteq> set []
      \<and> entry_title electionEntry = Some ''Election results announced''
      \<and> entry_title weatherEntry = Some ''Weather today''
      \<and> entry_description weatherEntry = Some ''Sunny''
      \<and> entry_title bareEntry = None
      \<and> entry_description bareEntry = None"
    by (simp add: electionEntry_def weatherEntry_def bareEntry_def headline_def)
  have kept: "map (makeArticle (\<lambda>date. ()) sourceA)
        (filter (\<lambda>e. fieldMatches (\<lambda>text. set ''election'' \<subseteq> set text) (entry_title e)
                    \<or> fieldMatches (\<lambda>text. set ''election'' \<subseteq> set text) (entry_description e))
           [electionEntry, weatherEntry, bareEntry])
      = [makeArticle (\<lambda>date. ()) sourceA electionEntry]"
    by code_simp
  from searchForArticlesFromSource_keeps_matches
    [of "\<lambda>text. set ''election'' \<subseteq> set text" "\<lambda>date. ()" sourceA
        "[electionEntry, weatherEntry, bareEntry]"]
  have "searchForArticlesFromSource (\<lambda>text. set ''election'' \<subseteq> set text) (\<lambda>date. ()) sourceA
       (Response ''ok'' [electionEntry, weatherEntry, bareEntry])
     = Inr (Inr [makeArticle (\<lambda>date. ()) sourceA electionEntry])"
    unfolding kept by blast
  with shape show ?thesis by blast
qed

text \<open>
  The parts of line 81: an invalid date gives \<open>NaN\<close>, a valid one the rounded quotient.
\<close>

lemma secondsSinceEpoch_invalid:
  "parseDate v = None \<Longrightarrow> secondsSinceEpoch parseDate v = NaN"
  by (simp add: secondsSinceEpoch_def getTime_def)

lemma secondsSinceEpoch_valid:
  "parseDate v = Some ms \<Longrightarrow> \<bar>ms\<bar> \<le> 8640000000000000 \<Longrightarrow>
     secondsSinceEpoch parseDate v = Number (binary64 (of_int ms / 1000))"
  by (simp add: secondsSinceEpoch_def getTime_def)

text \<open>
  No binary64 value is 1600000000.001: a power of two times 1600000000001 is never a
  multiple of 1000.
\<close>

lemma one_millisecond_not_binary64: "\<not> isBinary64 (1600000000001 / 1000)"
proof
  assume "isBinary64 (1600000000001 / 1000)"
  then obtain m k where eq: "(1600000000001 / 1000 :: rat) = of_int m * 2 powi k"
    unfolding isBinary64_def by blast
  show False
  proof (cases "0 \<le> k")
    case True
    then have "(2::rat) powi k = of_int (2 ^ nat k)" by (simp add: power_int_def)
    with eq have "(of_int 1600000000001 :: rat) = of_int (1000 * (m * 2 ^ nat k))" by simp
    then have "1600000000001 = 1000 * (m * 2 ^ nat k)" by (simp only: of_int_eq_iff)
    then have "(1600000000001 :: int) mod 1000 = 0" by (metis mod_mult_self1_is_0)
    then show False by simp
  next
    case False
    define n where "n = nat (- k)"
    from False have "(2::rat) powi k = 1 / of_int (2 ^ n)"
      by (simp add: power_int_def n_def field_simps)
    with eq have "(of_int (1600000000001 * 2 ^ n) :: rat) = of_int (1000 * m)"
      by (simp add: field_simps)
    then have int_eq: "1600000000001 * 2 ^ n = 1000 * m" by (simp only: of_int_eq_iff)
    have "(5::int) dvd 1000 * m" by simp
    with int_eq have "(5::int) dvd 2 ^ n * 1600000000001" by (simp add: mult.commute)
    moreover have "coprime (5::int) (2 ^ n)" by simp
    ultimately have "(5::int) dvd 1600000000001"
      by (simp add: coprime_dvd_mult_right_iff)
    then show False by simp
  qed
qed

text \<open>
  Claim C9, as the code has it. For an included entry whose published-at value is a
  date \<open>ms\<close> milliseconds from the epoch, the stored timestamp is \<open>ms / 1000\<close>
  rounded to binary64: a binary64 value than which no other is nearer to the quotient.
  It differs from the quotient by at most its \<open>2 ^ 53\<close>-th part, so fractional seconds
  are kept, and it is the quotient itself whenever the quotient is a binary64 value.
\<close>

theorem timestamp_rounds_to_binary64:
  assumes "e \<in> set entries"
    and "fieldMatches pattern (entry_title e) \<or> fieldMatches pattern (entry_description e)"
    and "parseDate (publishedAt e) = Some ms"
    and "\<bar>ms\<bar> \<le> 8640000000000000"
  shows "\<exists>found ts.
      searchForArticlesFromSource pattern (secondsSinceEpoch parseDate) src
          (Response ''ok'' entries) = Inr (Inr found)
    \<and> makeArticle (secondsSinceEpoch parseDate) src e \<in> set found
    \<and> map timestamp found
        = map (\<lambda>e. secondsSinceEpoch parseDate (publishedAt e))
            (filter (\<lambda>e. fieldMatches pattern (entry_title e)
                         \<or> fieldMatches pattern (entry_description e)) entries)
    \<and> timestamp (makeArticle (secondsSinceEpoch parseDate) src e) = Number ts
    \<and> ts = binary64 (of_int ms / 1000)
    \<and> isBinary64 ts
    \<and> (\<forall>r. isBinary64 r \<longrightarrow> \<bar>ts - of_int ms / 1000\<bar> \<le> \<bar>r - of_int ms / 1000\<bar>)
    \<and> \<bar>ts - of_int ms / 1000\<bar> * 2 ^ 53 \<le> \<bar>of_int ms / 1000\<bar>
    \<and> (isBinary64 (of_int ms / 1000) \<longrightarrow> ts = of_int ms / 1000)"
proof -
  let ?keep = "\<lambda>e. fieldMatches pattern (entry_title e) \<or> fieldMatches pattern (entry_description e)"
  let ?make = "makeArticle (secondsSinceEpoch parseDate) src"
  let ?found = "map ?make (filter ?keep entries)"
  let ?ts = "binary64 (of_int ms / 1000)"
  have run: "searchForArticlesFromSource pattern (secondsSinceEpoch parseDate) src
      (Response ''ok'' entries) = Inr (Inr ?found)"
    by (simp add: searchForArticlesFromSource_def foldl_visitEntry)
  have kept: "?make e \<in> set ?found" using assms(1,2) by simp
  have stamps: "map timestamp ?found
      = map (\<lambda>e. secondsSinceEpoch parseDate (publishedAt e)) (filter ?keep entries)"
    by (simp add: makeArticle_def)
  have stamp: "timestamp (?make e) = Number ?ts"
    using secondsSinceEpoch_valid[of parseDate "publishedAt e" ms, OF assms(3,4)]
    by (simp add: makeArticle_def)
  have exact: "isBinary64 (of_int ms / 1000) \<longrightarrow> ?ts = of_int ms / 1000"
    by (simp add: binary64_exact)
  have nearest: "\<forall>r. isBinary64 r \<longrightarrow> \<bar>?ts - of_int ms / 1000\<bar> \<le> \<bar>r - of_int ms / 1000\<bar>"
    by (simp add: binary64_nearest)
  from run kept stamps stamp binary64_is_binary64[of "of_int ms / 1000"] nearest
    binary64_error[of "of_int ms / 1000"] exact
  show ?thesis by blast
qed

theorem timestamp_rounds_to_binary64_witness:
  "headline ''election day'' \<in> set [headline ''election day'']
   \<and> fieldMatches (\<lambda>text. set ''election'' \<subseteq> set text) (entry_title (headline ''election day''))
   \<and> parseIso (publishedAt (headline ''election day'')) = Some 1600000000500
   \<and> \<bar>1600000000500 :: int\<bar> \<le> 8640000000000000
   \<and> isBinary64 (of_int 1600000000500 / 1000)
   \<and> timestamp (makeArticle (secondsSinceEpoch parseIso) sourceA (headline ''election day''))
       = Number (1600000000 + 1 / 2)"
proof -
  have entry: "headline ''election day'' \<in> set [headline ''election day'']" by simp
  have title: "fieldMatches (\<lambda>text. set ''election'' \<subseteq> set text)
      (entry_title (headline ''election day''))"
    by code_simp
  have date: "parseIso (publishedAt (headline ''election day'')) = Some 1600000000500"
    by (simp add: parseIso_def headline_def)
  have range: "\<bar>1600000000500 :: int\<bar> \<le> 8640000000000000" by simp
  have "\<bar>3200000001 :: int\<bar> < 2 ^ 53
      \<and> (of_int 1600000000500 / 1000 :: rat) = of_int 3200000001 * 2 powi (- 1)"
    by (simp add: power_int_minus)
  then have dyadic: "isBinary64 (of_int 1600000000500 / 1000)"
    unfolding isBinary64_def by blast
  have keep: "fieldMatches (\<lambda>text. set ''election'' \<subseteq> set text)
        (entry_title (headline ''election day''))
      \<or> fieldMatches (\<lambda>text. set ''election'' \<subseteq> set text)
        (entry_description (headline ''election day''))"
    using title by simp
  from timestamp_rounds_to_binary64
    [where e = "headline ''election day''" and entries = "[headline ''election day'']"
       and pattern = "\<lambda>text. set ''election'' \<subseteq> set text" and parseDate = parseIso
       and ms = 1600000000500 and src = sourceA, OF entry keep date range]
    dyadic
  have "timestamp (makeArticle (secondsSinceEpoch parseIso) sourceA (headline ''election day''))
      = Number (of_int 1600000000500 / 1000)"
    by auto
  with entry title date range dyadic show ?thesis by simp
qed

text \<open>
  Claim C9 as stated fails one millisecond past 1600000000 seconds: the stored
  timestamp is 3355443200002097 / 2097152, a little below 1600000000.001, which is
  not a binary64 value.
\<close>

theorem timestamp_of_one_millisecond_is_rounded:
  "searchForArticlesFromSource (\<lambda>text. set ''election'' \<subseteq> set text)
       (secondsSinceEpoch parseIso) sourceA (Response ''ok'' [lateEntry])
     = Inr (Inr [makeArticle (secondsSinceEpoch parseIso) sourceA lateEntry])
   \<and> parseIso (publishedAt lateEntry) = Some 1600000000001
   \<and> timestamp (makeArticle (secondsSinceEpoch parseIso) sourceA lateEntry)
       = Number (3355443200002097 / 2097152)
   \<and> Number (3355443200002097 / 2097152) \<noteq> Number (1600000000001 / 1000)
   \<and> (3355443200002097 / 2097152 :: rat) < 1600000000001 / 1000"
  by code_simp

section \<open>Properties of \<open>getNews\<close>\<close>

text \<open>
  Claim C3 on the three sources with a cap of 10, under which \<open>reduceArticles\<close> hands
  the merged list on as it is. When the request to \<open>C\<close> fails after \<open>A\<close> and \<open>B\<close> have
  answered, the failure is logged and the merged list holds the three articles of
  \<open>A\<close> and \<open>B\<close>, but \<open>callback\<close> is never invoked: the caller gets nothing. Had \<open>C\<close>
  answered with no entries instead, the caller would have got the three articles. When
  \<open>C\<close> answers with a body that is not JSON, line 66 throws: nothing is logged,
  \<open>pending\<close> stays above 0 and \<open>callback\<close> is never invoked, whether the host exits on
  the exception or goes on.
\<close>

theorem getNews_failure_costs_the_batch:
  "getNews roomyEnv ''election'' [(sourceA, answerA), (sourceB, answerB), (sourceC, failureC)]
     = Inr \<lparr> articles = scenarioMerged, pending = 0,
             requested = [''http://newsapi.org/v1/articles?source=a&apiKey=key'',
                          ''http://newsapi.org/v1/articles?source=b&apiKey=key'',
                          ''http://newsapi.org/v1/articles?source=c&apiKey=key''],
             console = [(''Request to [object Object] failed'', Transport ''ETIMEDOUT'')],
             delivered = [], uncaught = [] \<rparr>
   \<and> getNews roomyEnv ''election''
         [(sourceA, answerA), (sourceB, answerB), (sourceC, Response ''ok'' [])]
     = Inr \<lparr> articles = scenarioMerged, pending = 0,
             requested = [''http://newsapi.org/v1/articles?source=a&apiKey=key'',
                          ''http://newsapi.org/v1/articles?source=b&apiKey=key'',
                          ''http://newsapi.org/v1/articles?source=c&apiKey=key''],
             console = [],
             delivered = [Some scenarioMerged], uncaught = [] \<rparr>
   \<and> getNews roomyEnv ''election'' [(sourceA, answerA), (sourceC, NotJson), (sourceB, answerB)]
     = Inr \<lparr> articles = [articleOfA ''election day'', articleOfA ''the election''], pending = 2,
             requested = [''http://newsapi.org/v1/articles?source=a&apiKey=key'',
                          ''http://newsapi.org/v1/articles?source=b&apiKey=key'',
                          ''http://newsapi.org/v1/articles?source=c&apiKey=key''],
             console = [],
             delivered = [], uncaught = [SyntaxError] \<rparr>
   \<and> getNews (roomyEnv\<lparr> exitsOnUncaught := False \<rparr>) ''election''
         [(sourceA, answerA), (sourceC, NotJson), (sourceB, answerB)]
     = Inr \<lparr> articles = scenarioMerged, pending = 1,
             requested = [''http://newsapi.org/v1/articles?source=a&apiKey=key'',
                          ''http://newsapi.org/v1/articles?source=b&apiKey=key'',
                          ''http://newsapi.org/v1/articles?source=c&apiKey=key''],
             console = [],
             delivered = [], uncaught = [SyntaxError] \<rparr>"
  by code_simp

text \<open>
  Claim C1 on the three sources when the failing query of \<open>C\<close> is the last to settle:
  all three queries have settled (\<open>pending\<close> is 0), the \<open>return\<close> of line 32 leaves the
  callback of \<open>C\<close> before the test of line 36, and \<open>callback\<close> has not been invoked.
\<close>

theorem getNews_silent_after_late_failure:
  "getNews scenarioEnv ''election'' [(sourceA, answerA), (sourceB, answerB), (sourceC, failureC)]
     = Inr \<lparr> articles = scenarioMerged, pending = 0,
             requested = [''http://newsapi.org/v1/articles?source=a&apiKey=key'',
                          ''http://newsapi.org/v1/articles?source=b&apiKey=key'',
                          ''http://newsapi.org/v1/articles?source=c&apiKey=key''],
             console = [(''Request to [object Object] failed'', Transport ''ETIMEDOUT'')],
             delivered = [], uncaught = [] \<rparr>"
  by code_simp

text \<open>
  Claim C2 on its scenario: three sources, a cap of 2, the priority list \<open>[b, a, c]\<close>,
  two matches from \<open>A\<close>, one from \<open>B\<close>, and \<open>C\<close> failing before \<open>B\<close> answers. The
  merged list has three articles, none of which has an \<open>id\<close>; line 116 matches none of
  them, and \<open>callback\<close> receives \<open>undefined\<close> where the claim has the article of \<open>B\<close>
  followed by the first article of \<open>A\<close>.
\<close>

theorem getNews_scenario_delivers_undefined:
  "getNews scenarioEnv ''election'' [(sourceA, answerA), (sourceC, failureC), (sourceB, answerB)]
     = Inr \<lparr> articles = scenarioMerged, pending = 0,
             requested = [''http://newsapi.org/v1/articles?source=a&apiKey=key'',
                          ''http://newsapi.org/v1/articles?source=b&apiKey=key'',
                          ''http://newsapi.org/v1/articles?source=c&apiKey=key''],
             console = [(''Request to [object Object] failed'', Transport ''ETIMEDOUT'')],
             delivered = [None], uncaught = [] \<rparr>
   \<and> reduceArticles scenarioConfig scenarioMerged
       \<noteq> Some [articleOfB ''election results'', articleOfA ''election day'']"
  by code_simp

text \<open>
  Claim C4 with no source configured: no request is sent, no callback is registered,
  and \<open>respond\<close> is never reached, so \<open>callback\<close> is not invoked.
\<close>

theorem getNews_no_sources_never_responds:
  "getNews (scenarioEnv\<lparr> sources := [] \<rparr>) ''election'' []
     = Inr \<lparr> articles = [], pending = 0, requested = [], console = [], delivered = [],
             uncaught = [] \<rparr>"
  by code_simp

end
